theory Spec2Isabelle
  imports Main "HOL-Library.Word"
begin

unbundle bit_operations_syntax

section \<open>The glyph table\<close>

text \<open>
  The display is an 8x8 LED matrix.  A C \<open>char\<close> that is only compared is a HOL
  \<open>char\<close>; a C \<open>char\<close> or \<open>unsigned char\<close> that holds a row of pixels is an
  8-bit word.
\<close>

type_synonym byte = "8 word"

definition numberOfMatrixRows :: nat where
  "numberOfMatrixRows = 8"

definition numberOfMatrixCols :: int where
  "numberOfMatrixCols = 8"

definition EMPTY :: char where
  "EMPTY = CHR 0x00"

record matrixData =
  digit :: char
  rowBitArr :: "byte list"
  cols :: int

definition matrix :: "matrixData list" where
  "matrix =
    [\<lparr>digit = CHR '' '', rowBitArr = [0x00, 0x00, 0x00, 0x00, 0x00, 0x00, 0x00, 0x00], cols = 4\<rparr>,
     \<lparr>digit = CHR ''0'', rowBitArr = [0x20, 0x50, 0x50, 0x50, 0x50, 0x50, 0x20, 0x00], cols = 4\<rparr>,
     \<lparr>digit = CHR ''1'', rowBitArr = [0x20, 0x30, 0x20, 0x20, 0x20, 0x20, 0x70, 0x00], cols = 4\<rparr>,
     \<lparr>digit = CHR ''2'', rowBitArr = [0x20, 0x50, 0x40, 0x20, 0x20, 0x10, 0x70, 0x00], cols = 4\<rparr>,
     \<lparr>digit = CHR ''3'', rowBitArr = [0x30, 0x40, 0x40, 0x70, 0x40, 0x40, 0x30, 0x00], cols = 4\<rparr>,
     \<lparr>digit = CHR ''4'', rowBitArr = [0x40, 0x60, 0x50, 0x50, 0x70, 0x40, 0x40, 0x00], cols = 4\<rparr>,
     \<lparr>digit = CHR ''5'', rowBitArr = [0x70, 0x10, 0x10, 0x70, 0x40, 0x50, 0x20, 0x00], cols = 4\<rparr>,
     \<lparr>digit = CHR ''6'', rowBitArr = [0x60, 0x10, 0x10, 0x30, 0x50, 0x50, 0x20, 0x00], cols = 4\<rparr>,
     \<lparr>digit = CHR ''7'', rowBitArr = [0x70, 0x40, 0x40, 0x40, 0x20, 0x20, 0x20, 0x00], cols = 4\<rparr>,
     \<lparr>digit = CHR ''8'', rowBitArr = [0x20, 0x50, 0x50, 0x20, 0x50, 0x50, 0x20, 0x00], cols = 4\<rparr>,
     \<lparr>digit = CHR ''9'', rowBitArr = [0x20, 0x50, 0x50, 0x60, 0x40, 0x40, 0x30, 0x00], cols = 4\<rparr>,
     \<lparr>digit = CHR ''.'', rowBitArr = [0x00, 0x00, 0x00, 0x00, 0x00, 0x00, 0x00, 0x40], cols = 1\<rparr>,
     \<lparr>digit = CHR ''M'', rowBitArr = [0x50, 0x70, 0x70, 0x50, 0x50, 0x50, 0x50, 0x00], cols = 4\<rparr>]"

text \<open>
  What the C program does wrongly with memory is a value of the model: a read past the
  last element of \<open>matrix\<close> (with the index that was read) and a dereference of the
  null pointer.
\<close>

datatype fault = OutOfBoundsRead nat | NullDereference

text \<open>
  \<open>searchForHexData\<close> scans \<open>matrix\<close> from index 0 until an entry whose \<open>digit\<close> is
  \<open>EMPTY\<close>.  The result \<open>Inr (Some e)\<close> is the address of the entry \<open>e\<close>,
  \<open>Inr None\<close> is the null pointer.  The array has no length in C; the model checks
  each index against the 13 elements the array has.
\<close>

function searchForHexData_from :: "nat \<Rightarrow> char \<Rightarrow> fault + matrixData option" where
  "searchForHexData_from i objectMatrix =
     (if length matrix \<le> i then Inl (OutOfBoundsRead i)
      else if digit (matrix ! i) \<noteq> EMPTY then
        (if digit (matrix ! i) = objectMatrix then Inr (Some (matrix ! i))
         else searchForHexData_from (i + 1) objectMatrix)
      else Inr None)"
  by pat_completeness auto
termination
  by (relation "measure (\<lambda>(i, c). length matrix - i)") auto

declare searchForHexData_from.simps [simp del]

definition searchForHexData :: "char \<Rightarrow> fault + matrixData option" where
  "searchForHexData objectMatrix = searchForHexData_from 0 objectMatrix"

section \<open>The program state and its effects\<close>

text \<open>
  Everything the program does to the hardware is an event of a trace, in program order.
  The model covers the runs in which the sysfs files open and every bus transaction
  transfers its two bytes; a failed transaction ends the process (\<open>exit\<close>) and has no
  continuation to model.  Text printed to the terminal is not part of the trace.
\<close>

datatype thread = ThreadServo | ThreadButton

datatype event =
    WriteTo string string
  | Nanosleep int int
  | I2cOpen
  | I2cWrite byte byte
  | PthreadCreate thread
  | PthreadJoin thread

text \<open>
  The record holds the static variables of the C file, then the trace, then the
  environment: the integers that \<open>scanf\<close> stores on its successive calls and the
  integers that successive reads of the button's value file parse to.  The pointer
  \<open>charRowByRowBits\<close> is \<open>None\<close> while it is null and otherwise the array it
  points to.
\<close>

record globals =
  logicalFrameArr :: "byte list"
  physicalFrameArr :: "byte list"
  charRowByRowBits :: "byte list option"
  charCurrentColumns :: int
  stopServo :: bool
  stopButton :: bool
  servoTurnedOn :: bool
  mode :: int
  trace :: "event list"
  stdin :: "nat \<Rightarrow> 32 word"
  stdin_pos :: nat
  gpio27 :: "nat \<Rightarrow> int"
  gpio27_pos :: nat

definition initial_globals :: "(nat \<Rightarrow> 32 word) \<Rightarrow> (nat \<Rightarrow> int) \<Rightarrow> globals" where
  "initial_globals keyboard button =
     \<lparr>logicalFrameArr = replicate numberOfMatrixRows 0,
      physicalFrameArr = replicate (numberOfMatrixRows * 2) 0,
      charRowByRowBits = None,
      charCurrentColumns = 0,
      stopServo = False,
      stopButton = False,
      servoTurnedOn = False,
      mode = 0,
      trace = [],
      stdin = keyboard,
      stdin_pos = 0,
      gpio27 = button,
      gpio27_pos = 0\<rparr>"

definition emit :: "event list \<Rightarrow> globals \<Rightarrow> globals" where
  "emit es s = s\<lparr>trace := trace s @ es\<rparr>"

text \<open>A counted loop whose body may fault: the first fault ends it.\<close>

fun for_each :: "nat list \<Rightarrow> (nat \<Rightarrow> globals \<Rightarrow> fault + globals) \<Rightarrow> globals \<Rightarrow> fault + globals" where
  "for_each [] body s = Inr s"
| "for_each (i # rest) body s =
     (case body i s of Inl f \<Rightarrow> Inl f | Inr s' \<Rightarrow> for_each rest body s')"

subsection \<open>Timing and the servo's PWM files\<close>

text \<open>C's integer division truncates towards zero and the remainder has the dividend's sign.\<close>

definition c_div :: "int \<Rightarrow> int \<Rightarrow> int" where
  "c_div a b = sgn a * sgn b * (\<bar>a\<bar> div \<bar>b\<bar>)"

definition c_rem :: "int \<Rightarrow> int \<Rightarrow> int" where
  "c_rem a b = a - b * c_div a b"

text \<open>
  \<open>sleepForMs\<close> computes in \<open>long long\<close>; every caller passes an \<open>int\<close>, for which
  neither the product nor the two conversions to \<open>int\<close> overflow.
\<close>

definition sleepForMs :: "int \<Rightarrow> globals \<Rightarrow> globals" where
  "sleepForMs delayInMs s =
     (let NS_PER_MS = 1000 * 1000;
          NS_PER_SECOND = 1000000000;
          delayNs = delayInMs * NS_PER_MS;
          seconds = c_div delayNs NS_PER_SECOND;
          nanoseconds = c_rem delayNs NS_PER_SECOND
      in emit [Nanosleep seconds nanoseconds] s)"

definition writeTo :: "string \<Rightarrow> string \<Rightarrow> globals \<Rightarrow> globals" where
  "writeTo location v s = emit [WriteTo location v] s"

definition defaultRelease :: "globals \<Rightarrow> globals" where
  "defaultRelease s =
     (let s = writeTo ''/sys/class/pwm/pwmchip3/pwm1/period'' ''20000000'' s;
          s = writeTo ''/sys/class/pwm/pwmchip3/pwm1/enable'' ''1'' s;
          s = writeTo ''/sys/class/pwm/pwmchip3/pwm1/duty_cycle'' ''2000000'' s;
          s = sleepForMs 1000 s
      in writeTo ''/sys/class/pwm/pwmchip3/pwm1/duty_cycle'' ''1000000'' s)"

text \<open>\<open>int sleep = timeToSleep * 1000\<close> is a 32-bit product, read as signed.\<close>

definition userBasedRelease :: "32 word \<Rightarrow> globals \<Rightarrow> globals" where
  "userBasedRelease timeToSleep s =
     (let sleep = timeToSleep * 1000;
          s = sleepForMs (sint sleep) s
      in defaultRelease s)"

definition mode2Release :: "globals \<Rightarrow> globals" where
  "mode2Release s =
     (let s = writeTo ''/sys/class/pwm/pwmchip3/pwm1/period'' ''20000000'' s;
          s = writeTo ''/sys/class/pwm/pwmchip3/pwm1/enable'' ''1'' s;
          s = writeTo ''/sys/class/pwm/pwmchip3/pwm1/duty_cycle'' ''2000000'' s;
          s = sleepForMs 10000 s
      in writeTo ''/sys/class/pwm/pwmchip3/pwm1/duty_cycle'' ''1000000'' s)"

subsection \<open>The bus and the display registers\<close>

definition initI2cBus :: "globals \<Rightarrow> globals" where
  "initI2cBus s = emit [I2cOpen] s"

definition writeI2cReg :: "byte \<Rightarrow> byte \<Rightarrow> globals \<Rightarrow> globals" where
  "writeI2cReg regAddr v s = emit [I2cWrite regAddr v] s"

definition writeSmileyFace :: "globals \<Rightarrow> globals" where
  "writeSmileyFace s =
     (let s = initI2cBus s;
          s = writeI2cReg 0x00 0x1E s;
          s = writeI2cReg 0x02 0x21 s;
          s = writeI2cReg 0x04 0xD2 s;
          s = writeI2cReg 0x06 0xD2 s;
          s = writeI2cReg 0x08 0xC0 s;
          s = writeI2cReg 0x0A 0xD2 s;
          s = writeI2cReg 0x0C 0x2D s
      in writeI2cReg 0x0E 0x1E s)"

text \<open>The loops \<open>for (i = 0; i < 16; i += 2)\<close> visit the registers 0, 2, ..., 14.\<close>

definition row_registers :: "nat list" where
  "row_registers = map (\<lambda>j. 2 * j) [0..<8]"

definition clearDisplay :: "globals \<Rightarrow> globals" where
  "clearDisplay s = fold (\<lambda>i. writeI2cReg (of_nat i) 0x00) row_registers (initI2cBus s)"

text \<open>
  \<open>writeMatrixByBytes\<close> reads \<open>physicalFrameValues[j]\<close> for j = 0..7; the array it is
  given has 16 elements.
\<close>

definition writeMatrixByBytes :: "byte list \<Rightarrow> globals \<Rightarrow> globals" where
  "writeMatrixByBytes physicalFrameValues s =
     fold (\<lambda>i. writeI2cReg (of_nat i) (physicalFrameValues ! (i div 2))) row_registers (initI2cBus s)"

subsection \<open>Rendering a string\<close>

text \<open>
  The row bits are promoted to \<open>int\<close>, shifted there, and the result is converted back
  to a \<open>char\<close>, which keeps its low 8 bits.  The row is read as unsigned, as \<open>char\<close>
  is on the ARM boards the program configures; no row of \<open>matrix\<close> has its top bit set
  (lemma \<open>matrix_rows_small\<close>), so a signed \<open>char\<close> promotes to the same \<open>int\<close>.
\<close>

definition shiftLeftOnMatrixBy :: "int \<Rightarrow> byte \<Rightarrow> byte" where
  "shiftLeftOnMatrixBy shiftAmountInBytes rowValue =
     (if 0 \<le> shiftAmountInBytes
      then word_of_int (drop_bit (nat shiftAmountInBytes) (uint rowValue))
      else word_of_int (push_bit (nat (- shiftAmountInBytes)) (uint rowValue)))"

definition warpFrame :: "byte \<Rightarrow> byte" where
  "warpFrame logicalFrame =
     word_of_int (drop_bit 1 (uint logicalFrame) OR push_bit 7 (uint logicalFrame))"

definition logicalFrame :: "globals \<Rightarrow> globals" where
  "logicalFrame s =
     (let s = fold (\<lambda>i s. s\<lparr>physicalFrameArr :=
                           (physicalFrameArr s)[i := warpFrame (logicalFrameArr s ! i)]\<rparr>)
                   [0..<numberOfMatrixRows] s
      in writeMatrixByBytes (physicalFrameArr s) s)"

definition callMatrixObject :: "matrixData option \<Rightarrow> globals \<Rightarrow> fault + globals" where
  "callMatrixObject currentMatrixData s =
     (case currentMatrixData of
        None \<Rightarrow> Inl NullDereference
      | Some e \<Rightarrow> Inr (s\<lparr>charRowByRowBits := Some (rowBitArr e), charCurrentColumns := cols e\<rparr>))"

text \<open>The body of the loop over the rows, for the glyph that starts at column \<open>col\<close>.\<close>

definition or_row :: "int \<Rightarrow> nat \<Rightarrow> globals \<Rightarrow> fault + globals" where
  "or_row col i s =
     (case charRowByRowBits s of
        None \<Rightarrow> Inl NullDereference
      | Some rows \<Rightarrow>
          if length rows \<le> i then Inl (OutOfBoundsRead i)
          else
            let shiftAmountInBytes = numberOfMatrixCols - charCurrentColumns s - col;
                rowBits = shiftLeftOnMatrixBy shiftAmountInBytes (rows ! i)
            in Inr (s\<lparr>logicalFrameArr :=
                        (logicalFrameArr s)[i := (logicalFrameArr s ! i) OR rowBits]\<rparr>))"

text \<open>
  A C string is the list of its characters before the terminating zero.  Reading
  \<open>*display\<close> at the end of the list reads the terminator, and the pointer does not
  move past it.
\<close>

definition current_symbol :: "string \<Rightarrow> char" where
  "current_symbol display =
     (case display of [] \<Rightarrow> CHR '' '' | c # rest \<Rightarrow> if c \<noteq> EMPTY then c else CHR '' '')"

definition advance_display :: "string \<Rightarrow> string" where
  "advance_display display =
     (case display of [] \<Rightarrow> [] | c # rest \<Rightarrow> if c \<noteq> EMPTY then rest else display)"

text \<open>
  The loop \<open>for (col = 0; col < numberOfMatrixCols; col += charCurrentColumns)\<close> of
  \<open>displayMatrix\<close>.  It ends because every entry that the search can return is at least
  one column wide.
\<close>

function displayMatrix_loop :: "int \<Rightarrow> string \<Rightarrow> globals \<Rightarrow> fault + globals" where
  "displayMatrix_loop col display s =
     (if col < numberOfMatrixCols then
        (case searchForHexData (current_symbol display) of
           Inl f \<Rightarrow> Inl f
         | Inr p \<Rightarrow>
             (case callMatrixObject p s of
                Inl f \<Rightarrow> Inl f
              | Inr s1 \<Rightarrow>
                  (case for_each [0..<numberOfMatrixRows] (or_row col) s1 of
                     Inl f \<Rightarrow> Inl f
                   | Inr s2 \<Rightarrow>
                       displayMatrix_loop (col + charCurrentColumns s2)
                         (advance_display display) s2)))
      else Inr s)"
  by pat_completeness auto
termination
proof (relation "measure (\<lambda>(col, display, s). nat (numberOfMatrixCols - col))", goal_cases)
  case 1
  show ?case by simp
next
  case (2 col display s p s1 s2)
  have found: "searchForHexData_from i c = Inr (Some e) \<Longrightarrow> e \<in> set matrix" for i c e
  proof (induction i c rule: searchForHexData_from.induct)
    case (1 i c)
    from "1.prems" show ?case
      by (subst (asm) searchForHexData_from.simps) (auto split: if_splits intro: "1.IH")
  qed
  have kept: "for_each js (or_row col) t = Inr t' \<Longrightarrow> charCurrentColumns t' = charCurrentColumns t"
    for js t t'
    by (induction js arbitrary: t)
       (auto simp: or_row_def Let_def split: sum.splits option.splits if_splits)
  from 2(3) obtain e where p: "p = Some e" and s1: "charCurrentColumns s1 = cols e"
    by (auto simp: callMatrixObject_def split: option.splits)
  from 2(2) p have "e \<in> set matrix"
    by (auto simp: searchForHexData_def dest: found)
  then have "0 < cols e"
    by (auto simp: matrix_def)
  moreover have "charCurrentColumns s2 = charCurrentColumns s1"
    using 2(4) by (rule kept)
  ultimately show ?case
    using 2(1) s1 by simp
qed

declare displayMatrix_loop.simps [simp del]

text \<open>\<open>memset(logicalFrameArr, EMPTY, 8)\<close> zeroes the 8 rows of the frame.\<close>

definition displayMatrix :: "string \<Rightarrow> globals \<Rightarrow> fault + globals" where
  "displayMatrix display s =
     (let s0 = s\<lparr>logicalFrameArr := replicate 8 0\<rparr>
      in case searchForHexData (current_symbol display) of
           Inl f \<Rightarrow> Inl f
         | Inr p \<Rightarrow>
             (case callMatrixObject p s0 of
                Inl f \<Rightarrow> Inl f
              | Inr s1 \<Rightarrow>
                  (case displayMatrix_loop 0 display s1 of
                     Inl f \<Rightarrow> Inl f
                   | Inr s2 \<Rightarrow> Inr (logicalFrame s2))))"

text \<open>\<open>snprintf(buff, 10, "%s", c)\<close> keeps at most 9 characters.\<close>

definition displayMode :: "string \<Rightarrow> globals \<Rightarrow> fault + globals" where
  "displayMode c s = displayMatrix (take 9 c) s"

subsection \<open>The mode\<close>

definition switchMode :: "globals \<Rightarrow> globals" where
  "switchMode s =
     (if mode s = 0 then s\<lparr>mode := 1\<rparr>
      else if mode s = 1 then s\<lparr>mode := 2\<rparr>
      else if mode s = 2 then s\<lparr>mode := 0\<rparr>
      else s)"

subsection \<open>The servo thread\<close>

text \<open>
  \<open>stop_stopServo\<close> ends with \<open>pthread_join(threadServo, NULL)\<close>.  Called by the servo
  thread itself it names the calling thread, which the C library refuses at once
  (\<open>EDEADLK\<close>); the call is an event of the trace.
\<close>

definition stop_stopServo :: "globals \<Rightarrow> globals" where
  "stop_stopServo s = emit [PthreadJoin ThreadServo] (s\<lparr>servoTurnedOn := False, stopServo := True\<rparr>)"

text \<open>
  \<open>scanf("%d", &timeToSleep)\<close>: the value that \<open>timeToSleep\<close> holds afterwards is the
  next one of the environment; the time the call blocks is not modelled.
\<close>

definition scanf_int :: "globals \<Rightarrow> 32 word \<times> globals" where
  "scanf_int s = (stdin s (stdin_pos s), s\<lparr>stdin_pos := stdin_pos s + 1\<rparr>)"

text \<open>The dispatch on \<open>mode\<close> at the head of the loop body.\<close>

definition release_for_mode :: "globals \<Rightarrow> globals" where
  "release_for_mode s =
     (if mode s = 0 then defaultRelease s
      else if mode s = 1 then
        (let (timeToSleep, s1) = scanf_int s;
             s2 = userBasedRelease timeToSleep s1
         in sleepForMs 1000 s2)
      else if mode s = 2 then mode2Release s
      else s)"

definition turningServoMotor_body :: "globals \<Rightarrow> globals" where
  "turningServoMotor_body s =
     (let s1 = release_for_mode s;
          s2 = clearDisplay s1;
          s3 = s2\<lparr>servoTurnedOn := True\<rparr>;
          s4 = sleepForMs 100 s3
      in stop_stopServo s4)"

function turningServoMotor :: "globals \<Rightarrow> globals" where
  "turningServoMotor s =
     (if \<not> stopServo s then turningServoMotor (turningServoMotor_body s) else s)"
  by pat_completeness auto
termination
proof (relation "measure (\<lambda>s. if stopServo s then 0 else 1)", goal_cases)
  case 1
  show ?case by simp
next
  case (2 s)
  have "stopServo (turningServoMotor_body s)"
    by (simp add: turningServoMotor_body_def stop_stopServo_def emit_def Let_def)
  with 2 show ?case by simp
qed

declare turningServoMotor.simps [simp del]

text \<open>
  \<open>start_startServo\<close> clears the stop flag and creates a thread that runs
  \<open>turningServoMotor\<close>; the creation is an event of the trace.
\<close>

definition start_startServo :: "globals \<Rightarrow> globals" where
  "start_startServo s = emit [PthreadCreate ThreadServo] (s\<lparr>stopServo := False\<rparr>)"

definition inference_callback :: "bool \<Rightarrow> globals \<Rightarrow> globals" where
  "inference_callback is_understood s = (if is_understood then start_startServo s else s)"

subsection \<open>The button and the display thread\<close>

definition readButton :: "globals \<Rightarrow> int \<times> globals" where
  "readButton s = (gpio27 s (gpio27_pos s), s\<lparr>gpio27_pos := gpio27_pos s + 1\<rparr>)"

definition yellowButtonPressed :: "globals \<Rightarrow> bool \<times> globals" where
  "yellowButtonPressed s = (fst (readButton s) = 1, snd (readButton s))"

text \<open>
  The busy-wait \<open>while (yellowButtonPressed()) {}\<close> does not return while the button
  stays pressed: \<open>None\<close> is the run that waits forever.
\<close>

partial_function (option) debounce :: "globals \<Rightarrow> globals option" where
  "debounce s =
     (if fst (yellowButtonPressed s) then debounce (snd (yellowButtonPressed s))
      else Some (snd (yellowButtonPressed s)))"

declare debounce.simps [code]

definition display_mode_label :: "globals \<Rightarrow> fault + globals" where
  "display_mode_label s =
     (if mode s = 0 then displayMode ''M0'' s
      else if mode s = 1 then displayMode ''M1'' s
      else if mode s = 2 then displayMode ''M2'' s
      else Inr s)"

definition displayButton_body :: "globals \<Rightarrow> (fault + globals) option" where
  "displayButton_body s =
     (let s1 = clearDisplay s;
          pressed = fst (yellowButtonPressed s1);
          s2 = snd (yellowButtonPressed s1)
      in case (if pressed
               then map_option (\<lambda>t. sleepForMs 100 (switchMode t)) (debounce s2)
               else Some s2) of
           None \<Rightarrow> None
         | Some s3 \<Rightarrow>
             (let s4 = (if servoTurnedOn s3 then sleepForMs 5000 (writeSmileyFace s3) else s3)
              in case display_mode_label s4 of
                   Inl f \<Rightarrow> Some (Inl f)
                 | Inr s5 \<Rightarrow> Some (Inr (sleepForMs 100 s5))))"

partial_function (option) displayButton :: "globals \<Rightarrow> (fault + globals) option" where
  "displayButton s =
     (if \<not> stopButton s then
        (case displayButton_body s of
           None \<Rightarrow> None
         | Some r \<Rightarrow> (case r of Inl f \<Rightarrow> Some (Inl f) | Inr s' \<Rightarrow> displayButton s'))
      else Some (Inr s))"

declare displayButton.simps [code]

definition display_startButton :: "globals \<Rightarrow> globals" where
  "display_startButton s = emit [PthreadCreate ThreadButton] s"

definition display_stopButton :: "globals \<Rightarrow> globals" where
  "display_stopButton s = emit [PthreadJoin ThreadButton] (s\<lparr>stopButton := True\<rparr>)"

text \<open>
  The loop of \<open>displayButton\<close> does not end by itself.  Its first \<open>n\<close> passes, or
  fewer when the stop flag is found set, are what a run has done by the time another
  thread stops it.
\<close>

fun displayButton_passes :: "nat \<Rightarrow> globals \<Rightarrow> (fault + globals) option" where
  "displayButton_passes 0 s = Some (Inr s)"
| "displayButton_passes (Suc n) s =
     (if \<not> stopButton s then
        (case displayButton_body s of
           None \<Rightarrow> None
         | Some r \<Rightarrow> (case r of Inl f \<Rightarrow> Some (Inl f) | Inr s' \<Rightarrow> displayButton_passes n s'))
      else Some (Inr s))"

text \<open>
  Two states that differ at most in the frame buffers, the glyph variables and the
  trace: what drawing on the display may change.
\<close>

definition display_only :: "globals \<Rightarrow> globals \<Rightarrow> bool" where
  "display_only s s' =
     (stopServo s' = stopServo s \<and> stopButton s' = stopButton s \<and>
      servoTurnedOn s' = servoTurnedOn s \<and> mode s' = mode s \<and>
      stdin s' = stdin s \<and> stdin_pos s' = stdin_pos s \<and>
      gpio27 s' = gpio27 s \<and> gpio27_pos s' = gpio27_pos s)"

subsection \<open>Threads of the servo, read off the trace\<close>

text \<open>
  The program keeps no variable that says whether a control loop is running.  The trace
  does: a loop starts with the \<open>pthread_create\<close> of \<open>start_startServo\<close> and its one
  release cycle ends with the \<open>stop_stopServo\<close> that closes the loop body.  The
  actuator is running while more loops were created than cycles were finished.
\<close>

definition servo_threads_created :: "globals \<Rightarrow> nat" where
  "servo_threads_created s = count_list (trace s) (PthreadCreate ThreadServo)"

definition servo_cycles_finished :: "globals \<Rightarrow> nat" where
  "servo_cycles_finished s = count_list (trace s) (PthreadJoin ThreadServo)"

definition servo_running :: "globals \<Rightarrow> bool" where
  "servo_running s = (servo_cycles_finished s < servo_threads_created s)"

section \<open>The operations of the program as steps\<close>

text \<open>
  Each function of the program that changes the state is an operation.  An operation
  that faults or that does not return has no successor state.  The states the program can
  be in are those reached from the initial state by operations in any order, which
  covers every order in which the threads call them.
\<close>

datatype operation =
    SwitchMode
  | StartServo
  | StopServo
  | Callback bool
  | ServoThread
  | ServoBody
  | ReleaseForMode
  | DefaultRelease
  | UserBasedRelease "32 word"
  | Mode2Release
  | SleepForMs int
  | ClearDisplay
  | WriteSmileyFace
  | DisplayMode string
  | DisplayMatrix string
  | YellowButtonPressed
  | Debounce
  | DisplayBody
  | DisplayStart
  | DisplayStop

fun no_fault :: "fault + globals \<Rightarrow> globals option" where
  "no_fault (Inl f) = None"
| "no_fault (Inr s) = Some s"

fun perform :: "operation \<Rightarrow> globals \<Rightarrow> globals option" where
  "perform SwitchMode s = Some (switchMode s)"
| "perform StartServo s = Some (start_startServo s)"
| "perform StopServo s = Some (stop_stopServo s)"
| "perform (Callback u) s = Some (inference_callback u s)"
| "perform ServoThread s = Some (turningServoMotor s)"
| "perform ServoBody s = Some (turningServoMotor_body s)"
| "perform ReleaseForMode s = Some (release_for_mode s)"
| "perform DefaultRelease s = Some (defaultRelease s)"
| "perform (UserBasedRelease t) s = Some (userBasedRelease t s)"
| "perform Mode2Release s = Some (mode2Release s)"
| "perform (SleepForMs d) s = Some (sleepForMs d s)"
| "perform ClearDisplay s = Some (clearDisplay s)"
| "perform WriteSmileyFace s = Some (writeSmileyFace s)"
| "perform (DisplayMode c) s = no_fault (displayMode c s)"
| "perform (DisplayMatrix c) s = no_fault (displayMatrix c s)"
| "perform YellowButtonPressed s = Some (snd (yellowButtonPressed s))"
| "perform Debounce s = debounce s"
| "perform DisplayBody s = Option.bind (displayButton_body s) no_fault"
| "perform DisplayStart s = Some (display_startButton s)"
| "perform DisplayStop s = Some (display_stopButton s)"

inductive_set reachable :: "(nat \<Rightarrow> 32 word) \<Rightarrow> (nat \<Rightarrow> int) \<Rightarrow> globals set"
  for keyboard :: "nat \<Rightarrow> 32 word" and button :: "nat \<Rightarrow> int" where
  init: "initial_globals keyboard button \<in> reachable keyboard button"
| step: "s \<in> reachable keyboard button \<Longrightarrow> perform op s = Some s' \<Longrightarrow>
         s' \<in> reachable keyboard button"

section \<open>The frame that the specification describes\<close>

text \<open>
  The specification's words, for comparison with \<open>displayMatrix\<close>: the glyph of a
  symbol is its entry in the table, a text's width is the sum of its glyphs' widths, a
  positive shift moves a row right and a negative one left, and the frame is, row by
  row, the OR of every glyph's row shifted by 8 minus the glyph's width minus the
  running column, which starts at 0 and advances by each glyph's width.
\<close>

definition spec_glyph :: "char \<Rightarrow> matrixData option" where
  "spec_glyph c = find (\<lambda>g. digit g = c) matrix"

definition spec_glyph_width :: "char \<Rightarrow> int" where
  "spec_glyph_width c = (case spec_glyph c of None \<Rightarrow> 0 | Some g \<Rightarrow> cols g)"

definition spec_total_width :: "string \<Rightarrow> int" where
  "spec_total_width text = sum_list (map spec_glyph_width text)"

definition spec_shift :: "int \<Rightarrow> byte \<Rightarrow> byte" where
  "spec_shift amount row =
     (if 0 \<le> amount then drop_bit (nat amount) row else push_bit (nat (- amount)) row)"

fun spec_row :: "int \<Rightarrow> string \<Rightarrow> nat \<Rightarrow> byte" where
  "spec_row running_column [] i = 0"
| "spec_row running_column (c # text) i =
     (case spec_glyph c of
        None \<Rightarrow> spec_row running_column text i
      | Some g \<Rightarrow>
          spec_shift (8 - cols g - running_column) (rowBitArr g ! i) OR
          spec_row (running_column + cols g) text i)"

definition spec_frame :: "string \<Rightarrow> byte list" where
  "spec_frame text = map (spec_row 0 text) [0..<8]"

section \<open>Glyph lookup\<close>

lemma matrix_no_EMPTY: "e \<in> set matrix \<Longrightarrow> digit e \<noteq> EMPTY"
  by (auto simp: matrix_def EMPTY_def)

lemma length_matrix: "length matrix = 13"
  by (simp add: matrix_def)

lemma matrix_rows_small:
  "e \<in> set matrix \<Longrightarrow> r \<in> set (rowBitArr e) \<Longrightarrow> r < 0x80 \<and> sint r = uint r"
  by (auto simp: matrix_def)

text \<open>
  Since no entry stops the scan, the scan from index \<open>i\<close> returns the first entry with
  the wanted symbol at or after \<open>i\<close>, and leaves the array when there is none.
\<close>

lemma searchForHexData_from_find:
  "searchForHexData_from i c =
     (case find (\<lambda>e. digit e = c) (drop i matrix) of
        Some e \<Rightarrow> Inr (Some e)
      | None \<Rightarrow> Inl (OutOfBoundsRead (max i (length matrix))))"
proof (induction i c rule: searchForHexData_from.induct)
  case (1 i c)
  show ?case
  proof (cases "length matrix \<le> i")
    case True
    then show ?thesis
      by (simp add: searchForHexData_from.simps [of i c] max_def)
  next
    case False
    then have m: "max i (length matrix) = length matrix"
      "max (i + 1) (length matrix) = length matrix"
      by simp_all
    from False have d: "drop i matrix = matrix ! i # drop (i + 1) matrix"
      by (simp add: Cons_nth_drop_Suc)
    from False have ne: "digit (matrix ! i) \<noteq> EMPTY"
      by (simp add: matrix_no_EMPTY)
    show ?thesis
    proof (cases "digit (matrix ! i) = c")
      case True
      with False ne d show ?thesis
        by (simp add: searchForHexData_from.simps [of i c])
    next
      case neq: False
      have "searchForHexData_from i c = searchForHexData_from (i + 1) c"
        using False ne neq by (simp add: searchForHexData_from.simps [of i c])
      also have "\<dots> = (case find (\<lambda>e. digit e = c) (drop (i + 1) matrix) of
          Some e \<Rightarrow> Inr (Some e)
        | None \<Rightarrow> Inl (OutOfBoundsRead (max (i + 1) (length matrix))))"
        using "1.IH" False ne neq by simp
      finally show ?thesis
        using d neq m by (simp split: option.splits)
    qed
  qed
qed

lemma searchForHexData_find:
  "searchForHexData c =
     (case find (\<lambda>e. digit e = c) matrix of
        Some e \<Rightarrow> Inr (Some e)
      | None \<Rightarrow> Inl (OutOfBoundsRead (length matrix)))"
  by (simp add: searchForHexData_def searchForHexData_from_find split: option.splits)

text \<open>
  C9.  The scan of the glyph table stops only at an entry whose symbol is \<open>EMPTY\<close>, and
  none of the 13 entries has that symbol.  For every symbol that is not in the table the
  scan therefore reaches index 13, one past the last valid index 12: the lookup reads
  outside the table, and returns neither a table entry nor the null pointer.
\<close>

theorem absent_symbol_reads_out_of_bounds:
  "c \<notin> digit ` set matrix \<Longrightarrow>
     length matrix = 13 \<and> EMPTY \<notin> digit ` set matrix \<and>
     searchForHexData c = Inl (OutOfBoundsRead 13) \<and>
     (\<forall>e. searchForHexData c \<noteq> Inr (Some e)) \<and> searchForHexData c \<noteq> Inr None"
proof -
  assume "c \<notin> digit ` set matrix"
  then have "find (\<lambda>e. digit e = c) matrix = None"
    by (auto simp: find_None_iff)
  then have "searchForHexData c = Inl (OutOfBoundsRead 13)"
    by (simp add: searchForHexData_find length_matrix)
  moreover have "EMPTY \<notin> digit ` set matrix"
    by (metis imageE matrix_no_EMPTY)
  ultimately show ?thesis
    by (simp add: length_matrix)
qed

theorem absent_symbol_reads_out_of_bounds_witness:
  "CHR ''Z'' \<notin> digit ` set matrix \<and> length matrix = 13 \<and> EMPTY \<notin> digit ` set matrix \<and>
     searchForHexData CHR ''Z'' = Inl (OutOfBoundsRead 13) \<and>
     (\<forall>e. searchForHexData CHR ''Z'' \<noteq> Inr (Some e)) \<and>
     searchForHexData CHR ''Z'' \<noteq> Inr None"
proof -
  have h: "CHR ''Z'' \<notin> digit ` set matrix"
    by (simp add: matrix_def)
  show ?thesis
    using h absent_symbol_reads_out_of_bounds [OF h] by simp
qed

text \<open>
  C7.  The lookup of the letter A, which the glyph table does not hold: the scan runs
  through all 13 entries and reads the element at index 13, outside the table.  No
  error is signalled and the null pointer that stands for a miss is not returned.
\<close>

theorem lookup_of_letter_A: "searchForHexData CHR ''A'' = Inl (OutOfBoundsRead 13)"
  by (simp add: searchForHexData_def searchForHexData_from.simps matrix_def EMPTY_def)

section \<open>The mode\<close>

lemma mode_emit [simp]: "mode (emit es s) = mode s"
  by (simp add: emit_def)

lemma mode_sleepForMs [simp]: "mode (sleepForMs d s) = mode s"
  by (simp add: sleepForMs_def Let_def)

lemma mode_writeTo [simp]: "mode (writeTo l v s) = mode s"
  by (simp add: writeTo_def)

lemma mode_defaultRelease [simp]: "mode (defaultRelease s) = mode s"
  by (simp add: defaultRelease_def Let_def)

lemma mode_mode2Release [simp]: "mode (mode2Release s) = mode s"
  by (simp add: mode2Release_def Let_def)

lemma mode_userBasedRelease [simp]: "mode (userBasedRelease t s) = mode s"
  by (simp add: userBasedRelease_def Let_def)

lemma mode_release_for_mode [simp]: "mode (release_for_mode s) = mode s"
  by (simp add: release_for_mode_def scanf_int_def Let_def)

lemma mode_writeI2cReg [simp]: "mode (writeI2cReg r v s) = mode s"
  by (simp add: writeI2cReg_def)

lemma mode_initI2cBus [simp]: "mode (initI2cBus s) = mode s"
  by (simp add: initI2cBus_def)

lemma mode_fold_writeI2cReg [simp]:
  "mode (fold (\<lambda>i. writeI2cReg (r i) (v i)) js s) = mode s"
  by (induction js arbitrary: s) simp_all

lemma mode_clearDisplay [simp]: "mode (clearDisplay s) = mode s"
  by (simp add: clearDisplay_def)

lemma mode_writeSmileyFace [simp]: "mode (writeSmileyFace s) = mode s"
  by (simp add: writeSmileyFace_def Let_def)

lemma mode_writeMatrixByBytes [simp]: "mode (writeMatrixByBytes vs s) = mode s"
  by (simp add: writeMatrixByBytes_def)

lemma mode_fold_physical [simp]:
  "mode (fold (\<lambda>i s. s\<lparr>physicalFrameArr := f i s\<rparr>) js s) = mode s"
  by (induction js arbitrary: s) simp_all

lemma mode_logicalFrame [simp]: "mode (logicalFrame s) = mode s"
  by (simp add: logicalFrame_def Let_def)

lemma mode_callMatrixObject: "callMatrixObject p s = Inr s' \<Longrightarrow> mode s' = mode s"
  by (auto simp: callMatrixObject_def split: option.splits)

lemma mode_or_row: "or_row col i s = Inr s' \<Longrightarrow> mode s' = mode s"
  by (auto simp: or_row_def Let_def split: option.splits if_splits)

lemma mode_for_each_or_row: "for_each js (or_row col) s = Inr s' \<Longrightarrow> mode s' = mode s"
  by (induction js arbitrary: s) (auto split: sum.splits dest: mode_or_row)

lemma mode_displayMatrix_loop: "displayMatrix_loop col display s = Inr s' \<Longrightarrow> mode s' = mode s"
proof (induction col display s rule: displayMatrix_loop.induct)
  case (1 col display s)
  show ?case
  proof (cases "col < numberOfMatrixCols")
    case False
    with "1.prems" show ?thesis
      by (simp add: displayMatrix_loop.simps [of col display s])
  next
    case True
    with "1.prems" obtain p s1 s2 where
      p: "searchForHexData (current_symbol display) = Inr p" and
      s1: "callMatrixObject p s = Inr s1" and
      s2: "for_each [0..<numberOfMatrixRows] (or_row col) s1 = Inr s2" and
      r: "displayMatrix_loop (col + charCurrentColumns s2) (advance_display display) s2 = Inr s'"
      by (simp add: displayMatrix_loop.simps [of col display s] split: sum.splits)
    from "1.IH" [OF True p s1 s2 r] have "mode s' = mode s2" .
    with mode_for_each_or_row [OF s2] mode_callMatrixObject [OF s1] show ?thesis
      by simp
  qed
qed

lemma mode_displayMatrix: "displayMatrix display s = Inr s' \<Longrightarrow> mode s' = mode s"
  by (auto simp: displayMatrix_def Let_def split: sum.splits
      dest!: mode_callMatrixObject mode_displayMatrix_loop)

lemma mode_displayMode: "displayMode c s = Inr s' \<Longrightarrow> mode s' = mode s"
  by (simp add: displayMode_def mode_displayMatrix)

lemma mode_stop_stopServo [simp]: "mode (stop_stopServo s) = mode s"
  by (simp add: stop_stopServo_def)

lemma mode_start_startServo [simp]: "mode (start_startServo s) = mode s"
  by (simp add: start_startServo_def)

lemma mode_turningServoMotor_body [simp]: "mode (turningServoMotor_body s) = mode s"
  by (simp add: turningServoMotor_body_def Let_def)

lemma mode_turningServoMotor [simp]: "mode (turningServoMotor s) = mode s"
  by (induction s rule: turningServoMotor.induct) (simp add: turningServoMotor.simps)

lemma mode_yellowButtonPressed [simp]: "mode (snd (yellowButtonPressed s)) = mode s"
  by (simp add: yellowButtonPressed_def readButton_def)

lemma mode_debounce:
  assumes "debounce s = Some s'"
  shows "mode s' = mode s"
  using assms
  by (rule debounce.raw_induct [where P = "\<lambda>s s'. mode s' = mode s", rotated])
     (auto split: if_splits)

lemma mode_display_mode_label: "display_mode_label s = Inr s' \<Longrightarrow> mode s' = mode s"
  by (auto simp: display_mode_label_def split: if_splits dest: mode_displayMode)

lemma mode_switchMode:
  "mode (switchMode s) =
     (if mode s = 0 then 1 else if mode s = 1 then 2 else if mode s = 2 then 0 else mode s)"
  by (simp add: switchMode_def)

lemma mode_displayButton_body:
  "displayButton_body s = Some (Inr s') \<Longrightarrow> mode s' = mode s \<or> mode s' = mode (switchMode s)"
proof -
  assume a: "displayButton_body s = Some (Inr s')"
  let ?s2 = "snd (yellowButtonPressed (clearDisplay s))"
  have m2: "mode ?s2 = mode s"
    by simp
  from a obtain s3 s4 s5 where
    s3: "(if fst (yellowButtonPressed (clearDisplay s))
          then map_option (\<lambda>t. sleepForMs 100 (switchMode t)) (debounce ?s2)
          else Some ?s2) = Some s3" and
    s4: "s4 = (if servoTurnedOn s3 then sleepForMs 5000 (writeSmileyFace s3) else s3)" and
    s5: "display_mode_label s4 = Inr s5" and
    s': "s' = sleepForMs 100 s5"
    by (auto simp: displayButton_body_def Let_def split: option.splits sum.splits)
  have m3: "mode s3 = mode s \<or> mode s3 = mode (switchMode s)"
  proof (cases "fst (yellowButtonPressed (clearDisplay s))")
    case True
    with s3 obtain t where t: "debounce ?s2 = Some t" and "s3 = sleepForMs 100 (switchMode t)"
      by auto
    then show ?thesis
      using mode_debounce [OF t] m2 by (simp add: mode_switchMode)
  next
    case False
    with s3 m2 show ?thesis by simp
  qed
  have "mode s' = mode s3"
    using s4 s' mode_display_mode_label [OF s5] by simp
  with m3 show ?thesis by simp
qed

text \<open>
  C10.  The mode is 0 in the initial state and is 0, 1 or 2 in every state the program
  can reach.  \<open>switchMode\<close> maps 0 to 1, 1 to 2 and 2 to 0 and leaves every other value
  as it is.  An operation leaves the mode as it was or as one \<open>switchMode\<close> makes it,
  and an operation other than \<open>switchMode\<close> and the body of the display loop, which
  calls it, leaves the mode unchanged.
\<close>

theorem mode_invariant:
  "s \<in> reachable keyboard button \<Longrightarrow>
     mode s \<in> {0, 1, 2} \<and> mode (initial_globals keyboard button) = 0 \<and>
     mode (switchMode t) =
       (if mode t = 0 then 1 else if mode t = 1 then 2 else if mode t = 2 then 0 else mode t) \<and>
     (perform op t = Some t' \<longrightarrow> mode t' = mode t \<or> mode t' = mode (switchMode t)) \<and>
     (perform op t = Some t' \<longrightarrow> op \<noteq> SwitchMode \<longrightarrow> op \<noteq> DisplayBody \<longrightarrow> mode t' = mode t)"
proof -
  assume r: "s \<in> reachable keyboard button"
  have other: "mode u' = mode u"
    if "perform op u = Some u'" "op \<noteq> SwitchMode" "op \<noteq> DisplayBody" for op u u'
    using that
    by (cases op)
       (auto simp: inference_callback_def display_startButton_def display_stopButton_def
          dest: mode_displayMode mode_displayMatrix mode_debounce
          elim: no_fault.elims split: if_splits)
  have any: "mode u' = mode u \<or> mode u' = mode (switchMode u)"
    if p: "perform op u = Some u'" for op u u'
  proof (cases "op = SwitchMode \<or> op = DisplayBody")
    case False
    with other [OF p] show ?thesis by simp
  next
    case True
    then show ?thesis
    proof
      assume "op = SwitchMode"
      with p show ?thesis by auto
    next
      assume "op = DisplayBody"
      with p obtain r where "displayButton_body u = Some r" "no_fault r = Some u'"
        by (auto simp: bind_eq_Some_conv)
      then have "displayButton_body u = Some (Inr u')"
        by (cases r) auto
      then show ?thesis by (rule mode_displayButton_body)
    qed
  qed
  have inv: "mode s \<in> {0, 1, 2}"
    using r
  proof (induction rule: reachable.induct)
    case init
    show ?case by (simp add: initial_globals_def)
  next
    case (step s op s')
    from any [OF step.hyps(2)] step.IH show ?case
      by (auto simp: mode_switchMode)
  qed
  show ?thesis
    using inv other [of op t t'] any [of op t t']
    by (simp add: mode_switchMode initial_globals_def)
qed

theorem mode_invariant_witness:
  "switchMode (initial_globals (\<lambda>k. 0) (\<lambda>k. 0)) \<in> reachable (\<lambda>k. 0) (\<lambda>k. 0) \<and>
   mode (switchMode (initial_globals (\<lambda>k. 0) (\<lambda>k. 0))) \<in> {0, 1, 2} \<and>
   perform StartServo (switchMode (initial_globals (\<lambda>k. 0) (\<lambda>k. 0))) =
     Some (start_startServo (switchMode (initial_globals (\<lambda>k. 0) (\<lambda>k. 0)))) \<and>
   mode (start_startServo (switchMode (initial_globals (\<lambda>k. 0) (\<lambda>k. 0)))) = 1"
proof -
  have h: "switchMode (initial_globals (\<lambda>k. 0) (\<lambda>k. 0)) \<in> reachable (\<lambda>k. 0) (\<lambda>k. 0)"
    by (rule reachable.step [OF reachable.init, of SwitchMode]) simp
  show ?thesis
    using h mode_invariant [OF h, of "switchMode (initial_globals (\<lambda>k. 0) (\<lambda>k. 0))" StartServo
        "start_startServo (switchMode (initial_globals (\<lambda>k. 0) (\<lambda>k. 0)))"]
    by (simp add: switchMode_def initial_globals_def)
qed

text \<open>
  C3.  On each of the modes 0, 1 and 2, three mode advances give back the state they
  started from, and one advance follows the cycle 0 to 1 to 2 to 0.
\<close>

theorem switchMode_three_times:
  "mode s \<in> {0, 1, 2} \<Longrightarrow>
     switchMode (switchMode (switchMode s)) = s \<and>
     mode (switchMode s) = (if mode s = 0 then 1 else if mode s = 1 then 2 else 0)"
  by (auto simp: switchMode_def)

theorem switchMode_three_times_witness:
  "mode (initial_globals (\<lambda>k. 0) (\<lambda>k. 0)) \<in> {0, 1, 2} \<and>
   switchMode (switchMode (switchMode (initial_globals (\<lambda>k. 0) (\<lambda>k. 0))))
     = initial_globals (\<lambda>k. 0) (\<lambda>k. 0) \<and>
   mode (switchMode (initial_globals (\<lambda>k. 0) (\<lambda>k. 0))) = 1"
proof -
  have h: "mode (initial_globals (\<lambda>k. 0) (\<lambda>k. 0)) \<in> {0, 1, 2}"
    by (simp add: initial_globals_def)
  show ?thesis
    using h switchMode_three_times [OF h] by (simp add: initial_globals_def)
qed

section \<open>The release profiles and the servo loop\<close>

lemma sleepForMs_1000: "sleepForMs 1000 s = emit [Nanosleep 1 0] s"
  by (simp add: sleepForMs_def c_div_def c_rem_def)

lemma sleepForMs_10000: "sleepForMs 10000 s = emit [Nanosleep 10 0] s"
  by (simp add: sleepForMs_def c_div_def c_rem_def)

lemma sleepForMs_100: "sleepForMs 100 s = emit [Nanosleep 0 100000000] s"
  by (simp add: sleepForMs_def c_div_def c_rem_def)

lemma emit_emit: "emit es (emit ds s) = emit (ds @ es) s"
  by (simp add: emit_def)

text \<open>
  C6.  The release of mode 0 writes the period 20000000, the enable flag 1 and the duty
  cycle 2000000, sleeps 1 second and writes the duty cycle 1000000, in this order and
  nothing else; the release of mode 2 does the same with a sleep of 10 seconds.
\<close>

theorem release_profiles:
  "defaultRelease s =
     emit [WriteTo ''/sys/class/pwm/pwmchip3/pwm1/period'' ''20000000'',
           WriteTo ''/sys/class/pwm/pwmchip3/pwm1/enable'' ''1'',
           WriteTo ''/sys/class/pwm/pwmchip3/pwm1/duty_cycle'' ''2000000'',
           Nanosleep 1 0,
           WriteTo ''/sys/class/pwm/pwmchip3/pwm1/duty_cycle'' ''1000000''] s \<and>
   mode2Release s =
     emit [WriteTo ''/sys/class/pwm/pwmchip3/pwm1/period'' ''20000000'',
           WriteTo ''/sys/class/pwm/pwmchip3/pwm1/enable'' ''1'',
           WriteTo ''/sys/class/pwm/pwmchip3/pwm1/duty_cycle'' ''2000000'',
           Nanosleep 10 0,
           WriteTo ''/sys/class/pwm/pwmchip3/pwm1/duty_cycle'' ''1000000''] s \<and>
   release_for_mode (s\<lparr>mode := 0\<rparr>) = defaultRelease (s\<lparr>mode := 0\<rparr>) \<and>
   release_for_mode (s\<lparr>mode := 2\<rparr>) = mode2Release (s\<lparr>mode := 2\<rparr>)"
  by (simp add: defaultRelease_def mode2Release_def writeTo_def sleepForMs_1000 sleepForMs_10000
      emit_emit release_for_mode_def)

lemma stopServo_body: "stopServo (turningServoMotor_body s)"
  by (simp add: turningServoMotor_body_def stop_stopServo_def emit_def Let_def)

lemma turningServoMotor_once:
  "\<not> stopServo s \<Longrightarrow> turningServoMotor s = turningServoMotor_body s"
  by (simp add: turningServoMotor.simps [of s] turningServoMotor.simps [of "turningServoMotor_body s"] stopServo_body)

lemma trace_clearDisplay:
  "clearDisplay s = emit [I2cOpen, I2cWrite 0 0, I2cWrite 2 0, I2cWrite 4 0, I2cWrite 6 0,
      I2cWrite 8 0, I2cWrite 10 0, I2cWrite 12 0, I2cWrite 14 0] s"
  by (simp add: clearDisplay_def row_registers_def upt_rec [of _ 8] numeral_nat initI2cBus_def writeI2cReg_def emit_emit)

lemma joins_release_for_mode:
  "count_list (trace (release_for_mode s)) (PthreadJoin ThreadServo) =
   count_list (trace s) (PthreadJoin ThreadServo)"
  by (simp add: release_for_mode_def defaultRelease_def mode2Release_def userBasedRelease_def
      scanf_int_def writeTo_def sleepForMs_def emit_def Let_def)

lemma creates_release_for_mode:
  "count_list (trace (release_for_mode s)) (PthreadCreate ThreadServo) =
   count_list (trace s) (PthreadCreate ThreadServo)"
  by (simp add: release_for_mode_def defaultRelease_def mode2Release_def userBasedRelease_def
      scanf_int_def writeTo_def sleepForMs_def emit_def Let_def)

lemma body_trace:
  "trace (turningServoMotor_body s) =
     trace (release_for_mode s) @
     [I2cOpen, I2cWrite 0 0, I2cWrite 2 0, I2cWrite 4 0, I2cWrite 6 0,
      I2cWrite 8 0, I2cWrite 10 0, I2cWrite 12 0, I2cWrite 14 0,
      Nanosleep 0 100000000, PthreadJoin ThreadServo]"
  by (simp add: turningServoMotor_body_def trace_clearDisplay sleepForMs_100 stop_stopServo_def
      emit_def Let_def)

text \<open>
  C4.  Whatever the mode, the thread that \<open>start_startServo\<close> creates runs the loop body
  exactly once: its run is one execution of the body, which sets the stop flag, clears
  the busy flag and adds one release, one clearing of the display, one sleep of 100 ms
  and one \<open>stop_stopServo\<close> to the trace.  One loop was created and one cycle
  finished, so the actuator is idle afterwards if it was before.
\<close>

theorem start_runs_one_cycle:
  "turningServoMotor (start_startServo s) = turningServoMotor_body (start_startServo s) \<and>
   stopServo (turningServoMotor (start_startServo s)) \<and>
   \<not> servoTurnedOn (turningServoMotor (start_startServo s)) \<and>
   trace (turningServoMotor (start_startServo s)) =
     trace (release_for_mode (start_startServo s)) @
     [I2cOpen, I2cWrite 0 0, I2cWrite 2 0, I2cWrite 4 0, I2cWrite 6 0,
      I2cWrite 8 0, I2cWrite 10 0, I2cWrite 12 0, I2cWrite 14 0,
      Nanosleep 0 100000000, PthreadJoin ThreadServo] \<and>
   servo_threads_created (turningServoMotor (start_startServo s)) = servo_threads_created s + 1 \<and>
   servo_cycles_finished (turningServoMotor (start_startServo s)) = servo_cycles_finished s + 1 \<and>
   servo_running (turningServoMotor (start_startServo s)) = servo_running s"
proof -
  have run: "turningServoMotor (start_startServo s) = turningServoMotor_body (start_startServo s)"
    by (rule turningServoMotor_once) (simp add: start_startServo_def emit_def)
  have flags: "stopServo (turningServoMotor_body t) \<and> \<not> servoTurnedOn (turningServoMotor_body t)"
    for t
    by (simp add: turningServoMotor_body_def stop_stopServo_def emit_def Let_def)
  have joins: "servo_cycles_finished (turningServoMotor_body (start_startServo s)) =
      servo_cycles_finished s + 1"
    by (simp add: servo_cycles_finished_def body_trace joins_release_for_mode)
       (simp add: start_startServo_def emit_def)
  have creates: "servo_threads_created (turningServoMotor_body (start_startServo s)) =
      servo_threads_created s + 1"
    by (simp add: servo_threads_created_def body_trace creates_release_for_mode)
       (simp add: start_startServo_def emit_def)
  have same: "servo_running (turningServoMotor_body (start_startServo s)) = servo_running s"
    by (simp add: servo_running_def joins creates)
  show ?thesis
    using flags joins creates same by (simp add: run body_trace)
qed

text \<open>
  C5, as amended.  \<open>start_startServo\<close> tests nothing: in every state it clears the stop
  flag, leaves the busy flag and the mode as they are and creates one more control
  loop.  The trigger entry point calls it exactly when the inference was understood.
\<close>

theorem start_is_unguarded:
  "stopServo (start_startServo s) = False \<and>
   servoTurnedOn (start_startServo s) = servoTurnedOn s \<and>
   mode (start_startServo s) = mode s \<and>
   trace (start_startServo s) = trace s @ [PthreadCreate ThreadServo] \<and>
   servo_threads_created (start_startServo s) = servo_threads_created s + 1 \<and>
   inference_callback True s = start_startServo s \<and>
   inference_callback False s = s"
  by (simp add: start_startServo_def emit_def servo_threads_created_def inference_callback_def)

text \<open>
  C5, as stated, fails: after a first start the actuator is running, and a second start
  is not a no-op.  It changes the state and creates a second control loop while no
  cycle has finished.
\<close>

theorem second_start_while_running:
  "servo_running (start_startServo (initial_globals (\<lambda>k. 0) (\<lambda>k. 0))) \<and>
   start_startServo (start_startServo (initial_globals (\<lambda>k. 0) (\<lambda>k. 0)))
     \<noteq> start_startServo (initial_globals (\<lambda>k. 0) (\<lambda>k. 0)) \<and>
   servo_threads_created (start_startServo (start_startServo (initial_globals (\<lambda>k. 0) (\<lambda>k. 0)))) = 2 \<and>
   servo_cycles_finished (start_startServo (start_startServo (initial_globals (\<lambda>k. 0) (\<lambda>k. 0)))) = 0"
  by (simp add: start_startServo_def emit_def servo_threads_created_def servo_cycles_finished_def
      servo_running_def initial_globals_def)

section \<open>Rendering\<close>

lemma shiftLeftOnMatrixBy_spec: "shiftLeftOnMatrixBy n v = spec_shift n v"
  unfolding shiftLeftOnMatrixBy_def spec_shift_def
  by (auto intro!: bit_word_eqI simp: bit_simps)

lemma for_each_append:
  "for_each (xs @ ys) body s =
     (case for_each xs body s of Inl f \<Rightarrow> Inl f | Inr s' \<Rightarrow> for_each ys body s')"
  by (induction xs arbitrary: s) (auto split: sum.splits)

lemma rows_prefix:
  assumes rows: "charRowByRowBits s = Some rows" "length rows = 8"
    and fr: "length (logicalFrameArr s) = 8" and k: "k \<le> 8"
  shows "for_each [0..<k] (or_row col) s =
     Inr (s\<lparr>logicalFrameArr :=
            map (\<lambda>i. logicalFrameArr s ! i OR
                      spec_shift (8 - charCurrentColumns s - col) (rows ! i)) [0..<k]
            @ drop k (logicalFrameArr s)\<rparr>)"
  using k
proof (induction k)
  case 0
  show ?case by simp
next
  case (Suc k)
  then have k: "k < 8" by simp
  let ?f = "\<lambda>i. logicalFrameArr s ! i OR spec_shift (8 - charCurrentColumns s - col) (rows ! i)"
  let ?t = "s\<lparr>logicalFrameArr := map ?f [0..<k] @ drop k (logicalFrameArr s)\<rparr>"
  have pre: "for_each [0..<k] (or_row col) s = Inr ?t"
    using Suc by simp
  have d: "drop k (logicalFrameArr s) = logicalFrameArr s ! k # drop (Suc k) (logicalFrameArr s)"
    using k fr by (simp add: Cons_nth_drop_Suc)
  have nth: "(map ?f [0..<k] @ drop k (logicalFrameArr s)) ! k = logicalFrameArr s ! k"
    by (simp add: nth_append d)
  have upd: "(map ?f [0..<k] @ drop k (logicalFrameArr s))[k := ?f k] =
      map ?f [0..<Suc k] @ drop (Suc k) (logicalFrameArr s)"
    by (simp add: list_update_append d)
  have "or_row col k ?t =
      Inr (s\<lparr>logicalFrameArr := map ?f [0..<Suc k] @ drop (Suc k) (logicalFrameArr s)\<rparr>)"
    using rows k nth upd
    by (simp add: or_row_def Let_def numberOfMatrixCols_def shiftLeftOnMatrixBy_spec)
  then show ?case
    using pre by (simp add: for_each_append)
qed

lemma rows_loop:
  assumes "charRowByRowBits s = Some rows" "length rows = 8" "length (logicalFrameArr s) = 8"
  shows "for_each [0..<numberOfMatrixRows] (or_row col) s =
     Inr (s\<lparr>logicalFrameArr :=
            map (\<lambda>i. logicalFrameArr s ! i OR
                      spec_shift (8 - charCurrentColumns s - col) (rows ! i)) [0..<8]\<rparr>)"
  using rows_prefix [OF assms, of 8 col] assms(3)
  by (simp add: numberOfMatrixRows_def)

lemma glyph_present:
  assumes "c \<in> digit ` set matrix"
  obtains g where "spec_glyph c = Some g" "searchForHexData c = Inr (Some g)"
    "length (rowBitArr g) = 8" "0 < cols g" "c \<noteq> EMPTY"
proof -
  from assms obtain g where g: "find (\<lambda>g. digit g = c) matrix = Some g"
    by (cases "find (\<lambda>g. digit g = c) matrix") (auto simp: find_None_iff)
  then have m: "g \<in> set matrix" and dg: "digit g = c"
    by (auto simp: find_Some_iff)
  from m have "length (rowBitArr g) = 8" "0 < cols g"
    by (auto simp: matrix_def)
  moreover from m dg have "c \<noteq> EMPTY"
    using matrix_no_EMPTY by auto
  ultimately show thesis
    using g that by (simp add: spec_glyph_def searchForHexData_find)
qed

lemma blank_glyph:
  "searchForHexData CHR '' '' =
     Inr (Some \<lparr>digit = CHR '' '', rowBitArr = [0, 0, 0, 0, 0, 0, 0, 0], cols = 4\<rparr>)"
  by (simp add: searchForHexData_find matrix_def)

lemma map_nth_8: "length xs = 8 \<Longrightarrow> map (\<lambda>i. xs ! i) [0..<8] = xs"
  using map_nth [of xs] by simp

lemma loop_blank:
  "length (logicalFrameArr s) = 8 \<Longrightarrow>
   \<exists>s'. displayMatrix_loop col [] s = Inr s' \<and> logicalFrameArr s' = logicalFrameArr s"
proof (induction "nat (8 - col)" arbitrary: col s rule: less_induct)
  case less
  show ?case
  proof (cases "col < 8")
    case False
    then show ?thesis
      by (simp add: displayMatrix_loop.simps [of col "[]" s] numberOfMatrixCols_def)
  next
    case True
    let ?s1 = "s\<lparr>charRowByRowBits := Some [0, 0, 0, 0, 0, 0, 0, 0], charCurrentColumns := 4\<rparr>"
    have r: "[0, 0, 0, 0, 0, 0, 0, 0 :: byte] = replicate 8 0"
      by (simp add: eval_nat_numeral)
    have "map (\<lambda>i. logicalFrameArr s ! i OR spec_shift (4 - col) (replicate 8 0 ! i)) [0..<8] =
        map (\<lambda>i. logicalFrameArr s ! i) [0..<8]"
      by (intro map_cong) (simp_all add: spec_shift_def)
    then have z: "map (\<lambda>i. logicalFrameArr s ! i OR
          spec_shift (4 - col) ([0, 0, 0, 0, 0, 0, 0, 0] ! i)) [0..<8] = logicalFrameArr s"
      using less.prems by (simp only: r map_nth_8)
    have rows: "for_each [0..<numberOfMatrixRows] (or_row col) ?s1 = Inr ?s1"
      using rows_loop [of ?s1 "[0, 0, 0, 0, 0, 0, 0, 0]" col] less.prems
      by (simp add: z)
    have "\<exists>s'. displayMatrix_loop (col + 4) [] ?s1 = Inr s' \<and>
        logicalFrameArr s' = logicalFrameArr ?s1"
      using True less.prems by (intro less.hyps) simp_all
    then show ?thesis
      using True rows
      by (simp add: displayMatrix_loop.simps [of col "[]" s] numberOfMatrixCols_def
          current_symbol_def advance_display_def blank_glyph callMatrixObject_def)
  qed
qed

lemma spec_glyph_width_nonneg: "0 \<le> spec_glyph_width c"
  by (auto simp: spec_glyph_width_def spec_glyph_def matrix_def split: option.splits if_splits)

lemma spec_total_width_nonneg: "0 \<le> spec_total_width str"
  unfolding spec_total_width_def
  by (induction str) (simp_all add: spec_glyph_width_nonneg)

lemma loop_text:
  assumes "set str \<subseteq> digit ` set matrix" "col + spec_total_width str \<le> 8"
    "length (logicalFrameArr s) = 8"
  shows "\<exists>s'. displayMatrix_loop col str s = Inr s' \<and>
     logicalFrameArr s' = map (\<lambda>i. logicalFrameArr s ! i OR spec_row col str i) [0..<8]"
  using assms
proof (induction str arbitrary: col s)
  case Nil
  then show ?case
    using loop_blank [of s col] by (simp add: map_nth_8)
next
  case (Cons c str)
  from Cons.prems(1) have "c \<in> digit ` set matrix" by simp
  then obtain g where g: "spec_glyph c = Some g" "searchForHexData c = Inr (Some g)"
    "length (rowBitArr g) = 8" "0 < cols g" "c \<noteq> EMPTY"
    by (rule glyph_present)
  have widths: "0 \<le> spec_total_width str"
    by (rule spec_total_width_nonneg)
  let ?s1 = "s\<lparr>charRowByRowBits := Some (rowBitArr g), charCurrentColumns := cols g\<rparr>"
  let ?a = "\<lambda>i. logicalFrameArr s ! i OR spec_shift (8 - cols g - col) (rowBitArr g ! i)"
  let ?s2 = "?s1\<lparr>logicalFrameArr := map ?a [0..<8]\<rparr>"
  have rows: "for_each [0..<numberOfMatrixRows] (or_row col) ?s1 = Inr ?s2"
    using rows_loop [of ?s1 "rowBitArr g" col] g(3) Cons.prems(3) by simp
  have w: "spec_total_width (c # str) = cols g + spec_total_width str"
    using g(1) by (simp add: spec_total_width_def spec_glyph_width_def)
  with Cons.prems(2) g(4) widths have lt: "col < 8" by simp
  from w Cons.prems(2) have le: "col + cols g + spec_total_width str \<le> 8" by simp
  have "\<exists>s'. displayMatrix_loop (col + cols g) str ?s2 = Inr s' \<and>
      logicalFrameArr s' = map (\<lambda>i. logicalFrameArr ?s2 ! i OR spec_row (col + cols g) str i) [0..<8]"
    using Cons.prems(1) le by (intro Cons.IH) simp_all
  then obtain s' where s': "displayMatrix_loop (col + cols g) str ?s2 = Inr s'"
    "logicalFrameArr s' = map (\<lambda>i. logicalFrameArr ?s2 ! i OR spec_row (col + cols g) str i) [0..<8]"
    by blast
  have "map (\<lambda>i. logicalFrameArr ?s2 ! i OR spec_row (col + cols g) str i) [0..<8] =
      map (\<lambda>i. logicalFrameArr s ! i OR spec_row col (c # str) i) [0..<8]"
    using g(1) by (intro map_cong) (simp_all add: ac_simps)
  with s' have "displayMatrix_loop col (c # str) s = Inr s' \<and>
      logicalFrameArr s' = map (\<lambda>i. logicalFrameArr s ! i OR spec_row col (c # str) i) [0..<8]"
    using lt g(2,5) rows
    by (simp add: displayMatrix_loop.simps [of col "c # str" s] numberOfMatrixCols_def
        current_symbol_def advance_display_def callMatrixObject_def)
  then show ?case by blast
qed

lemma warpFrame_word: "warpFrame b = drop_bit 1 b OR push_bit 7 b"
  unfolding warpFrame_def
  by (rule bit_word_eqI) (auto simp: bit_simps)

lemma warpFrame_rotr: "warpFrame b = word_rotr 1 b"
  unfolding warpFrame_word
proof (rule bit_word_eqI)
  fix n
  assume "n < LENGTH(8)"
  then have n: "n < 8" by simp
  show "bit (drop_bit 1 b OR push_bit 7 b) n = bit (word_rotr 1 b) n"
  proof (cases "n = 7")
    case True
    have "\<not> bit b 8"
      using bit_imp_le_length [of b 8] by auto
    with True show ?thesis
      by (simp add: bit_simps bit_word_rotr_iff)
  next
    case False
    with n have "n < 7" by simp
    then have "Suc n mod 8 = Suc n" by simp
    with \<open>n < 7\<close> show ?thesis
      by (simp add: bit_simps bit_word_rotr_iff)
  qed
qed

lemma rotl_warpFrame: "word_rotl 1 (warpFrame b) = b"
  by (simp add: warpFrame_rotr)

lemma uint_warpFrame:
  "uint (warpFrame b) = (drop_bit 1 (uint b) OR push_bit 7 (uint b)) mod 256"
  by (simp add: warpFrame_def uint_word_of_int)

lemma fold_emit_fields:
  "logicalFrameArr (fold (\<lambda>i. writeI2cReg (r i) (v i)) js s) = logicalFrameArr s"
  "physicalFrameArr (fold (\<lambda>i. writeI2cReg (r i) (v i)) js s) = physicalFrameArr s"
  by (induction js arbitrary: s) (simp_all add: writeI2cReg_def emit_def)

lemma writeMatrixByBytes_fields:
  "logicalFrameArr (writeMatrixByBytes vs s) = logicalFrameArr s"
  "physicalFrameArr (writeMatrixByBytes vs s) = physicalFrameArr s"
  by (simp_all add: writeMatrixByBytes_def fold_emit_fields initI2cBus_def emit_def)

lemma fold_writeI2cReg:
  "fold (\<lambda>j. writeI2cReg (r j) (v j)) js s = emit (map (\<lambda>j. I2cWrite (r j) (v j)) js) s"
  by (induction js arbitrary: s) (simp_all add: writeI2cReg_def emit_emit, simp add: emit_def)

lemma writeMatrixByBytes_emit:
  "writeMatrixByBytes vs s =
     emit (I2cOpen # map (\<lambda>j. I2cWrite (of_nat (2 * j)) (vs ! j)) [0..<8]) s"
  using fold_writeI2cReg [of "\<lambda>j. of_nat (2 * j)" "\<lambda>j. vs ! j" "[0..<8]" "initI2cBus s"]
  by (simp add: writeMatrixByBytes_def row_registers_def fold_map comp_def initI2cBus_def
      emit_emit)

lemma warp_prefix:
  "k \<le> length (physicalFrameArr s) \<Longrightarrow>
   fold (\<lambda>i s. s\<lparr>physicalFrameArr :=
                  (physicalFrameArr s)[i := warpFrame (logicalFrameArr s ! i)]\<rparr>) [0..<k] s =
   s\<lparr>physicalFrameArr := map (\<lambda>i. warpFrame (logicalFrameArr s ! i)) [0..<k]
                           @ drop k (physicalFrameArr s)\<rparr>"
proof (induction k)
  case 0
  show ?case by simp
next
  case (Suc k)
  then have k: "k < length (physicalFrameArr s)" by simp
  have d: "drop k (physicalFrameArr s) = physicalFrameArr s ! k # drop (Suc k) (physicalFrameArr s)"
    using k by (simp add: Cons_nth_drop_Suc)
  show ?case
    using Suc by (simp add: list_update_append d)
qed

lemma logicalFrame_fields:
  assumes "length (logicalFrameArr s) = 8" "8 \<le> length (physicalFrameArr s)"
  shows "logicalFrameArr (logicalFrame s) = logicalFrameArr s"
    and "physicalFrameArr (logicalFrame s) =
         map warpFrame (logicalFrameArr s) @ drop 8 (physicalFrameArr s)"
proof -
  have m: "map (\<lambda>i. warpFrame (logicalFrameArr s ! i)) [0..<8] = map warpFrame (logicalFrameArr s)"
    using assms(1) map_nth_8 [of "logicalFrameArr s"] map_map [of warpFrame "\<lambda>i. logicalFrameArr s ! i" "[0..<8]"]
    by (simp add: comp_def)
  show "logicalFrameArr (logicalFrame s) = logicalFrameArr s"
    using assms(2) by (simp add: logicalFrame_def Let_def numberOfMatrixRows_def warp_prefix
        writeMatrixByBytes_fields)
  show "physicalFrameArr (logicalFrame s) =
         map warpFrame (logicalFrameArr s) @ drop 8 (physicalFrameArr s)"
    using assms(2) m by (simp add: logicalFrame_def Let_def numberOfMatrixRows_def warp_prefix
        writeMatrixByBytes_fields)
qed

text \<open>
  C2.  The transform of a row before it is sent is the rotation of its 8 bits one place
  to the right, that is \<open>(byte >> 1) | (byte << 7)\<close> modulo 256, and rotating one place
  to the left undoes it.  It maps 1 to 128 and 0 to 0.  For a frame of 8 rows,
  \<open>logicalFrame\<close> stores the transformed rows in the first 8 places of the physical
  frame and sends them to the registers 0, 2, ..., 14; rotating these 8 bytes left gives
  the logical frame back, which the call leaves unchanged.
\<close>

theorem warpFrame_rotates_right:
  "length (logicalFrameArr s) = 8 \<Longrightarrow> length (physicalFrameArr s) = 16 \<Longrightarrow>
     warpFrame b = word_rotr 1 b \<and>
     uint (warpFrame b) = (drop_bit 1 (uint b) OR push_bit 7 (uint b)) mod 256 \<and>
     word_rotl 1 (warpFrame b) = b \<and>
     warpFrame 1 = 128 \<and> warpFrame 0 = 0 \<and>
     take 8 (physicalFrameArr (logicalFrame s)) = map warpFrame (logicalFrameArr s) \<and>
     map (word_rotl 1) (take 8 (physicalFrameArr (logicalFrame s))) = logicalFrameArr s \<and>
     logicalFrameArr (logicalFrame s) = logicalFrameArr s \<and>
     trace (logicalFrame s) =
       trace s @ I2cOpen #
         map (\<lambda>j. I2cWrite (of_nat (2 * j)) (warpFrame (logicalFrameArr s ! j))) [0..<8]"
proof -
  assume l: "length (logicalFrameArr s) = 8" and p: "length (physicalFrameArr s) = 16"
  then have p8: "8 \<le> length (physicalFrameArr s)" by simp
  have phys: "physicalFrameArr (logicalFrame s) =
      map warpFrame (logicalFrameArr s) @ drop 8 (physicalFrameArr s)"
    by (rule logicalFrame_fields(2) [OF l p8])
  with l have t: "take 8 (physicalFrameArr (logicalFrame s)) = map warpFrame (logicalFrameArr s)"
    by simp
  have m: "map (\<lambda>i. warpFrame (logicalFrameArr s ! i)) [0..<8] = map warpFrame (logicalFrameArr s)"
    using l map_nth_8 [of "logicalFrameArr s"]
      map_map [of warpFrame "\<lambda>i. logicalFrameArr s ! i" "[0..<8]"]
    by (simp add: comp_def)
  have inv: "map (word_rotl 1) (map warpFrame (logicalFrameArr s)) = logicalFrameArr s"
    using rotl_warpFrame by (simp add: comp_def)
  have tr: "trace (logicalFrame s) =
       trace s @ I2cOpen #
         map (\<lambda>j. I2cWrite (of_nat (2 * j)) (warpFrame (logicalFrameArr s ! j))) [0..<8]"
  proof -
    have "map (\<lambda>j. I2cWrite (of_nat (2 * j))
            ((map warpFrame (logicalFrameArr s) @ drop 8 (physicalFrameArr s)) ! j)) [0..<8] =
        map (\<lambda>j. I2cWrite (of_nat (2 * j)) (warpFrame (logicalFrameArr s ! j))) [0..<8]"
      using l by (intro map_cong) (simp_all add: nth_append)
    then show ?thesis
      using p8 m by (simp add: logicalFrame_def Let_def numberOfMatrixRows_def warp_prefix
          writeMatrixByBytes_emit emit_def)
  qed
  have inv': "map (word_rotl 1) (take 8 (physicalFrameArr (logicalFrame s))) = logicalFrameArr s"
    using t inv by simp
  have keep: "logicalFrameArr (logicalFrame s) = logicalFrameArr s"
    by (rule logicalFrame_fields(1) [OF l p8])
  have one: "warpFrame 1 = 128" and zero: "warpFrame 0 = 0"
    by (simp_all add: warpFrame_def)
  note warpFrame_rotr [of b] uint_warpFrame [of b] rotl_warpFrame [of b]
  with one zero t inv' keep tr show ?thesis
    by (intro conjI)
qed

theorem warpFrame_rotates_right_witness:
  "length (logicalFrameArr (initial_globals (\<lambda>k. 0) (\<lambda>k. 0))) = 8 \<and>
   length (physicalFrameArr (initial_globals (\<lambda>k. 0) (\<lambda>k. 0))) = 16 \<and>
   word_rotl 1 (warpFrame 0x25) = 0x25 \<and>
   warpFrame 1 = 128 \<and> warpFrame 0 = 0 \<and>
   map (word_rotl 1) (take 8 (physicalFrameArr (logicalFrame (initial_globals (\<lambda>k. 0) (\<lambda>k. 0)))))
     = logicalFrameArr (initial_globals (\<lambda>k. 0) (\<lambda>k. 0))"
proof -
  have h1: "length (logicalFrameArr (initial_globals (\<lambda>k. 0) (\<lambda>k. 0))) = 8"
    by (simp add: initial_globals_def numberOfMatrixRows_def)
  have h2: "length (physicalFrameArr (initial_globals (\<lambda>k. 0) (\<lambda>k. 0))) = 16"
    by (simp add: initial_globals_def numberOfMatrixRows_def)
  show ?thesis
    using h1 h2 warpFrame_rotates_right [OF h1 h2, of "0x25"]
    by blast
qed

lemma logicalFrameArr_fold_physical:
  "logicalFrameArr (fold (\<lambda>i s. s\<lparr>physicalFrameArr := f i s\<rparr>) js s) = logicalFrameArr s"
  by (induction js arbitrary: s) simp_all

lemma logicalFrameArr_logicalFrame: "logicalFrameArr (logicalFrame s) = logicalFrameArr s"
  by (simp add: logicalFrame_def Let_def writeMatrixByBytes_fields logicalFrameArr_fold_physical)

lemma spec_frame_Nil: "spec_frame [] = replicate 8 0"
  by (simp add: spec_frame_def list_eq_iff_nth_eq)

lemma displayMatrix_frame:
  assumes "set str \<subseteq> digit ` set matrix" "spec_total_width str \<le> 8"
  shows "\<exists>s'. displayMatrix str s = Inr s' \<and> logicalFrameArr s' = spec_frame str"
proof -
  let ?s0 = "s\<lparr>logicalFrameArr := replicate 8 0\<rparr>"
  have "current_symbol str \<in> digit ` set matrix"
  proof (cases str)
    case Nil
    then show ?thesis by (simp add: current_symbol_def matrix_def)
  next
    case (Cons c cs)
    with assms(1) have "c \<in> digit ` set matrix" by simp
    moreover from this have "c \<noteq> EMPTY"
      by (rule glyph_present)
    ultimately show ?thesis
      using Cons by (simp add: current_symbol_def)
  qed
  then obtain g where g: "searchForHexData (current_symbol str) = Inr (Some g)"
    by (rule glyph_present)
  let ?s1 = "?s0\<lparr>charRowByRowBits := Some (rowBitArr g), charCurrentColumns := cols g\<rparr>"
  have call: "callMatrixObject (Some g) ?s0 = Inr ?s1"
    by (simp add: callMatrixObject_def)
  have "\<exists>s'. displayMatrix_loop 0 str ?s1 = Inr s' \<and>
      logicalFrameArr s' = map (\<lambda>i. logicalFrameArr ?s1 ! i OR spec_row 0 str i) [0..<8]"
    using assms by (intro loop_text) simp_all
  then obtain s2 where s2: "displayMatrix_loop 0 str ?s1 = Inr s2"
    "logicalFrameArr s2 = map (\<lambda>i. logicalFrameArr ?s1 ! i OR spec_row 0 str i) [0..<8]"
    by blast
  have "map (\<lambda>i. logicalFrameArr ?s1 ! i OR spec_row 0 str i) [0..<8] = spec_frame str"
    unfolding spec_frame_def by (intro map_cong) simp_all
  with s2 have "logicalFrameArr (logicalFrame s2) = spec_frame str"
    by (simp add: logicalFrameArr_logicalFrame)
  moreover have "displayMatrix str s = Inr (logicalFrame s2)"
    using g call s2(1) by (simp add: displayMatrix_def Let_def)
  ultimately show ?thesis by blast
qed

text \<open>
  C1.  For a text whose symbols are all in the glyph table and whose glyphs are
  together at most 8 columns wide, \<open>displayMatrix\<close> returns without a fault and the
  logical frame it leaves is, row by row, the OR of the glyphs' rows, each shifted by
  8 minus the glyph's width minus the running column.  For the empty text the frame is
  all zero.
\<close>

theorem displayMatrix_renders_text:
  assumes "set str \<subseteq> digit ` set matrix" "spec_total_width str \<le> 8"
  shows "(\<exists>s'. displayMatrix str s = Inr s' \<and> logicalFrameArr s' = spec_frame str) \<and>
         (\<exists>s'. displayMatrix [] s = Inr s' \<and> logicalFrameArr s' = replicate 8 0)"
proof
  show "\<exists>s'. displayMatrix str s = Inr s' \<and> logicalFrameArr s' = spec_frame str"
    using assms by (rule displayMatrix_frame)
  have "\<exists>s'. displayMatrix [] s = Inr s' \<and> logicalFrameArr s' = spec_frame []"
    by (rule displayMatrix_frame) (simp_all add: spec_total_width_def)
  then show "\<exists>s'. displayMatrix [] s = Inr s' \<and> logicalFrameArr s' = replicate 8 0"
    by (simp add: spec_frame_Nil)
qed

lemma spec_frame_M0: "spec_frame ''M0'' = [0x25, 0x57, 0x57, 0x55, 0x55, 0x55, 0x25, 0x00]"
  by code_simp

theorem displayMatrix_renders_text_witness:
  "set ''M0'' \<subseteq> digit ` set matrix \<and> spec_total_width ''M0'' \<le> 8 \<and>
   (\<exists>s'. displayMatrix ''M0'' (initial_globals (\<lambda>k. 0) (\<lambda>k. 0)) = Inr s' \<and>
         logicalFrameArr s' = [0x25, 0x57, 0x57, 0x55, 0x55, 0x55, 0x25, 0x00])"
proof -
  have h1: "set ''M0'' \<subseteq> digit ` set matrix"
    by (simp add: matrix_def)
  have h2: "spec_total_width ''M0'' \<le> 8"
    by (simp add: spec_total_width_def spec_glyph_width_def spec_glyph_def matrix_def)
  show ?thesis
    using h1 h2 displayMatrix_renders_text [OF h1 h2, of "initial_globals (\<lambda>k. 0) (\<lambda>k. 0)"]
    by (simp add: spec_frame_M0)
qed

section \<open>The display loop and the button\<close>

lemma display_only_refl [simp]: "display_only s s"
  by (simp add: display_only_def)

lemma display_only_trans: "display_only s t \<Longrightarrow> display_only t u \<Longrightarrow> display_only s u"
  by (simp add: display_only_def)

lemma display_only_emit [simp]: "display_only s (emit es s)"
  by (simp add: display_only_def emit_def)

lemma display_only_emit' [simp]: "display_only s t \<Longrightarrow> display_only s (emit es t)"
  by (simp add: display_only_def emit_def)

lemma sleepForMs_emit: "\<exists>es. sleepForMs d s = emit es s"
  by (auto simp: sleepForMs_def Let_def)

lemma display_only_sleepForMs [simp]: "display_only s t \<Longrightarrow> display_only s (sleepForMs d t)"
  by (simp add: sleepForMs_def Let_def)

lemma display_only_clearDisplay [simp]: "display_only s t \<Longrightarrow> display_only s (clearDisplay t)"
  by (simp add: trace_clearDisplay)

lemma display_only_writeSmileyFace [simp]:
  "display_only s t \<Longrightarrow> display_only s (writeSmileyFace t)"
  by (simp add: writeSmileyFace_def Let_def initI2cBus_def writeI2cReg_def)

lemma display_only_fold_physical:
  "display_only s (fold (\<lambda>i s. s\<lparr>physicalFrameArr := f i s\<rparr>) js s)"
proof (induction js arbitrary: s)
  case Nil
  show ?case by simp
next
  case (Cons j js)
  have "display_only s (s\<lparr>physicalFrameArr := f j s\<rparr>)"
    by (simp add: display_only_def)
  then show ?case
    using Cons [of "s\<lparr>physicalFrameArr := f j s\<rparr>"] by (auto intro: display_only_trans)
qed

lemma display_only_logicalFrame: "display_only s (logicalFrame s)"
  by (simp add: logicalFrame_def Let_def writeMatrixByBytes_emit display_only_fold_physical)

lemma display_only_callMatrixObject: "callMatrixObject p s = Inr s' \<Longrightarrow> display_only s s'"
  by (auto simp: callMatrixObject_def display_only_def split: option.splits)

lemma display_only_or_row: "or_row col i s = Inr s' \<Longrightarrow> display_only s s'"
  by (auto simp: or_row_def Let_def display_only_def split: option.splits if_splits)

lemma display_only_for_each:
  "for_each js (or_row col) s = Inr s' \<Longrightarrow> display_only s s'"
proof (induction js arbitrary: s)
  case Nil
  then show ?case by simp
next
  case (Cons j js)
  then obtain t where "or_row col j s = Inr t" "for_each js (or_row col) t = Inr s'"
    by (auto split: sum.splits)
  then show ?case
    using Cons.IH [of t] by (auto intro: display_only_trans dest: display_only_or_row)
qed

lemma display_only_loop: "displayMatrix_loop col display s = Inr s' \<Longrightarrow> display_only s s'"
proof (induction col display s rule: displayMatrix_loop.induct)
  case (1 col display s)
  show ?case
  proof (cases "col < numberOfMatrixCols")
    case False
    with "1.prems" show ?thesis
      by (simp add: displayMatrix_loop.simps [of col display s])
  next
    case True
    with "1.prems" obtain p s1 s2 where
      p: "searchForHexData (current_symbol display) = Inr p" and
      s1: "callMatrixObject p s = Inr s1" and
      s2: "for_each [0..<numberOfMatrixRows] (or_row col) s1 = Inr s2" and
      r: "displayMatrix_loop (col + charCurrentColumns s2) (advance_display display) s2 = Inr s'"
      by (simp add: displayMatrix_loop.simps [of col display s] split: sum.splits)
    from "1.IH" [OF True p s1 s2 r] display_only_for_each [OF s2]
      display_only_callMatrixObject [OF s1]
    show ?thesis
      by (blast intro: display_only_trans)
  qed
qed

lemma display_only_displayMatrix: "displayMatrix display s = Inr s' \<Longrightarrow> display_only s s'"
proof -
  assume a: "displayMatrix display s = Inr s'"
  let ?s0 = "s\<lparr>logicalFrameArr := replicate 8 0\<rparr>"
  from a obtain p s1 s2 where
    s1: "callMatrixObject p ?s0 = Inr s1" and
    s2: "displayMatrix_loop 0 display s1 = Inr s2" and
    s': "s' = logicalFrame s2"
    by (auto simp: displayMatrix_def Let_def split: sum.splits)
  have "display_only s ?s0"
    by (simp add: display_only_def)
  with display_only_callMatrixObject [OF s1] display_only_loop [OF s2]
    display_only_logicalFrame [of s2] s'
  show ?thesis
    by (blast intro: display_only_trans)
qed

lemma display_mode_label_ok: "\<exists>s'. display_mode_label s = Inr s' \<and> display_only s s'"
proof -
  have ok: "\<exists>s'. displayMode str s = Inr s' \<and> display_only s s'"
    if "str \<in> {''M0'', ''M1'', ''M2''}" for str
  proof -
    from that have "set (take 9 str) \<subseteq> digit ` set matrix" "spec_total_width (take 9 str) \<le> 8"
      by (auto simp: matrix_def spec_total_width_def spec_glyph_width_def spec_glyph_def)
    then obtain s' where "displayMatrix (take 9 str) s = Inr s'"
      using displayMatrix_frame by blast
    then show ?thesis
      by (auto simp: displayMode_def dest: display_only_displayMatrix)
  qed
  show ?thesis
    using ok [of "''M0''"] ok [of "''M1''"] ok [of "''M2''"]
    by (auto simp: display_mode_label_def)
qed

lemma debounce_released:
  "(\<forall>k<m. gpio27 t (gpio27_pos t + k) = 1) \<Longrightarrow> gpio27 t (gpio27_pos t + m) \<noteq> 1 \<Longrightarrow>
   debounce t = Some (t\<lparr>gpio27_pos := gpio27_pos t + m + 1\<rparr>)"
proof (induction m arbitrary: t)
  case 0
  then show ?case
    by (simp add: debounce.simps [of t] yellowButtonPressed_def readButton_def)
next
  case (Suc m)
  let ?t = "t\<lparr>gpio27_pos := gpio27_pos t + 1\<rparr>"
  from Suc.prems(1) have first: "gpio27 t (gpio27_pos t) = 1"
    by (metis add.right_neutral zero_less_Suc)
  have "\<forall>k<m. gpio27 ?t (gpio27_pos ?t + k) = 1"
  proof (intro allI impI)
    fix k
    assume "k < m"
    then have "Suc k < Suc m" by simp
    with Suc.prems(1) have "gpio27 t (gpio27_pos t + Suc k) = 1" by blast
    then show "gpio27 ?t (gpio27_pos ?t + k) = 1" by simp
  qed
  moreover from Suc.prems(2) have "gpio27 ?t (gpio27_pos ?t + m) \<noteq> 1" by simp
  ultimately have "debounce ?t = Some (?t\<lparr>gpio27_pos := gpio27_pos ?t + m + 1\<rparr>)"
    by (rule Suc.IH)
  with first show ?case
    by (simp add: debounce.simps [of t] yellowButtonPressed_def readButton_def)
qed

lemma body_after_button:
  "\<exists>s'. (case display_mode_label
               (if servoTurnedOn s3 then sleepForMs 5000 (writeSmileyFace s3) else s3) of
           Inl f \<Rightarrow> Some (Inl f)
         | Inr s5 \<Rightarrow> Some (Inr (sleepForMs 100 s5))) = Some (Inr s') \<and> display_only s3 s'"
proof -
  let ?s4 = "if servoTurnedOn s3 then sleepForMs 5000 (writeSmileyFace s3) else s3"
  have s4: "display_only s3 ?s4"
    by simp
  obtain s5 where s5: "display_mode_label ?s4 = Inr s5" "display_only ?s4 s5"
    using display_mode_label_ok [of ?s4] by blast
  have "display_only s3 (sleepForMs 100 s5)"
    using s4 s5(2) by (blast intro: display_only_trans display_only_sleepForMs)
  with s5(1) show ?thesis
    by simp
qed

lemma body_from_button:
  assumes "(if fst (yellowButtonPressed (clearDisplay s))
            then map_option (\<lambda>t. sleepForMs 100 (switchMode t))
                   (debounce (snd (yellowButtonPressed (clearDisplay s))))
            else Some (snd (yellowButtonPressed (clearDisplay s)))) = Some s3"
  shows "\<exists>s'. displayButton_body s = Some (Inr s') \<and> display_only s3 s'"
  unfolding displayButton_body_def Let_def assms option.case
  by (rule body_after_button)

lemma body_not_pressed:
  assumes "gpio27 s (gpio27_pos s) \<noteq> 1"
  shows "\<exists>s'. displayButton_body s = Some (Inr s') \<and> mode s' = mode s \<and>
     stopButton s' = stopButton s \<and> gpio27 s' = gpio27 s \<and> gpio27_pos s' = gpio27_pos s + 1"
proof -
  let ?s1 = "clearDisplay s"
  let ?s2 = "snd (yellowButtonPressed ?s1)"
  have c: "display_only s ?s1" by simp
  then have np: "\<not> fst (yellowButtonPressed ?s1)"
    using assms by (simp add: yellowButtonPressed_def readButton_def display_only_def)
  from np have "(if fst (yellowButtonPressed ?s1)
            then map_option (\<lambda>t. sleepForMs 100 (switchMode t)) (debounce ?s2)
            else Some ?s2) = Some ?s2"
    by simp
  then obtain s' where s': "displayButton_body s = Some (Inr s')" "display_only ?s2 s'"
    using body_from_button by blast
  note s'(1)
  moreover from s'(2) c have "mode s' = mode s \<and> stopButton s' = stopButton s \<and>
      gpio27 s' = gpio27 s \<and> gpio27_pos s' = gpio27_pos s + 1"
    by (simp add: display_only_def yellowButtonPressed_def readButton_def)
  ultimately show ?thesis by blast
qed

lemma body_pressed:
  assumes "0 < N" "\<forall>k<N. gpio27 s (gpio27_pos s + k) = 1" "gpio27 s (gpio27_pos s + N) \<noteq> 1"
  shows "\<exists>s'. displayButton_body s = Some (Inr s') \<and> mode s' = mode (switchMode s) \<and>
     stopButton s' = stopButton s \<and> gpio27 s' = gpio27 s \<and> gpio27_pos s' = gpio27_pos s + N + 1"
proof -
  let ?s1 = "clearDisplay s"
  let ?s2 = "snd (yellowButtonPressed ?s1)"
  obtain m where N: "N = Suc m"
    using assms(1) by (cases N) simp_all
  have c: "display_only s ?s1" by simp
  have s2: "gpio27 ?s2 = gpio27 s" "gpio27_pos ?s2 = gpio27_pos s + 1" "mode ?s2 = mode s"
    "stopButton ?s2 = stopButton s"
    using c by (simp_all add: display_only_def yellowButtonPressed_def readButton_def)
  from assms(2) N have "gpio27 s (gpio27_pos s + 0) = 1" by blast
  then have pr: "fst (yellowButtonPressed ?s1)"
    using c by (simp add: yellowButtonPressed_def readButton_def display_only_def)
  have "\<forall>k<m. gpio27 ?s2 (gpio27_pos ?s2 + k) = 1"
  proof (intro allI impI)
    fix k
    assume "k < m"
    then have "Suc k < N" using N by simp
    with assms(2) have "gpio27 s (gpio27_pos s + Suc k) = 1" by blast
    then show "gpio27 ?s2 (gpio27_pos ?s2 + k) = 1" by (simp add: s2)
  qed
  moreover have "gpio27 ?s2 (gpio27_pos ?s2 + m) \<noteq> 1"
    using assms(3) N by (simp add: s2)
  ultimately have d: "debounce ?s2 = Some (?s2\<lparr>gpio27_pos := gpio27_pos ?s2 + m + 1\<rparr>)"
    by (rule debounce_released)
  let ?s3 = "sleepForMs 100 (switchMode (?s2\<lparr>gpio27_pos := gpio27_pos ?s2 + m + 1\<rparr>))"
  have sw: "mode (switchMode (?s2\<lparr>gpio27_pos := gpio27_pos ?s2 + m + 1\<rparr>)) = mode (switchMode s)"
    "stopButton (switchMode (?s2\<lparr>gpio27_pos := gpio27_pos ?s2 + m + 1\<rparr>)) = stopButton s"
    "gpio27 (switchMode (?s2\<lparr>gpio27_pos := gpio27_pos ?s2 + m + 1\<rparr>)) = gpio27 s"
    "gpio27_pos (switchMode (?s2\<lparr>gpio27_pos := gpio27_pos ?s2 + m + 1\<rparr>)) = gpio27_pos s + N + 1"
    using s2 N by (simp_all add: switchMode_def)
  have s3: "mode ?s3 = mode (switchMode s)" "stopButton ?s3 = stopButton s"
    "gpio27 ?s3 = gpio27 s" "gpio27_pos ?s3 = gpio27_pos s + N + 1"
    using sw by (simp_all add: sleepForMs_def Let_def emit_def)
  from pr d have "(if fst (yellowButtonPressed ?s1)
            then map_option (\<lambda>t. sleepForMs 100 (switchMode t)) (debounce ?s2)
            else Some ?s2) = Some ?s3"
    by (simp only: if_True option.map)
  then obtain s' where s': "displayButton_body s = Some (Inr s')" "display_only ?s3 s'"
    using body_from_button by blast
  note s'(1)
  moreover from s'(2) s3 have "mode s' = mode (switchMode s) \<and> stopButton s' = stopButton s \<and>
      gpio27 s' = gpio27 s \<and> gpio27_pos s' = gpio27_pos s + N + 1"
    by (simp add: display_only_def)
  ultimately show ?thesis by blast
qed

lemma passes_released:
  "\<forall>k. gpio27 s (gpio27_pos s + k) \<noteq> 1 \<Longrightarrow>
   \<exists>s'. displayButton_passes n s = Some (Inr s') \<and> mode s' = mode s"
proof (induction n arbitrary: s)
  case 0
  show ?case by simp
next
  case (Suc n)
  show ?case
  proof (cases "stopButton s")
    case True
    then show ?thesis by simp
  next
    case False
    from Suc.prems have "gpio27 s (gpio27_pos s) \<noteq> 1"
      by (metis add.right_neutral)
    then obtain t where t: "displayButton_body s = Some (Inr t)" "mode t = mode s"
      "gpio27 t = gpio27 s" "gpio27_pos t = gpio27_pos s + 1"
      using body_not_pressed [of s] by blast
    have "\<forall>k. gpio27 t (gpio27_pos t + k) \<noteq> 1"
    proof
      fix k
      from Suc.prems have "gpio27 s (gpio27_pos s + Suc k) \<noteq> 1" by blast
      then show "gpio27 t (gpio27_pos t + k) \<noteq> 1" by (simp add: t)
    qed
    then obtain s' where "displayButton_passes n t = Some (Inr s')" "mode s' = mode t"
      using Suc.IH [of t] by blast
    with t False show ?thesis by simp
  qed
qed

text \<open>
  C8.  The button reads pressed at \<open>N\<close> consecutive polls, \<open>N\<close> at least 1, and released
  from then on.  The pass of the display loop that sees the first of these polls returns,
  having consumed all \<open>N\<close> pressed polls and the released one that ends the busy-wait,
  and has advanced the mode by exactly one \<open>switchMode\<close>; however many further passes
  the loop makes, the mode stays one advance away from where it was.
\<close>

theorem held_press_advances_once:
  assumes "\<not> stopButton s" "0 < N"
    and "\<forall>k<N. gpio27 s (gpio27_pos s + k) = 1"
    and "\<forall>k\<ge>N. gpio27 s (gpio27_pos s + k) \<noteq> 1"
  shows "(\<exists>s'. displayButton_body s = Some (Inr s') \<and> mode s' = mode (switchMode s) \<and>
            gpio27_pos s' = gpio27_pos s + N + 1) \<and>
         (\<exists>s'. displayButton_passes (Suc n) s = Some (Inr s') \<and> mode s' = mode (switchMode s))"
proof -
  from assms(4) have "gpio27 s (gpio27_pos s + N) \<noteq> 1" by blast
  with assms(2,3) obtain t where t: "displayButton_body s = Some (Inr t)"
    "mode t = mode (switchMode s)" "gpio27 t = gpio27 s" "gpio27_pos t = gpio27_pos s + N + 1"
    using body_pressed [of N s] by blast
  have "\<forall>k. gpio27 t (gpio27_pos t + k) \<noteq> 1"
  proof
    fix k
    have "gpio27 s (gpio27_pos s + (N + 1 + k)) \<noteq> 1"
      using assms(4) [rule_format, of "N + 1 + k"] by simp
    then show "gpio27 t (gpio27_pos t + k) \<noteq> 1" by (simp add: t add.assoc)
  qed
  then obtain s' where "displayButton_passes n t = Some (Inr s')" "mode s' = mode t"
    using passes_released [of t n] by blast
  with t assms(1) show ?thesis by simp
qed

theorem held_press_advances_once_witness:
  "(\<exists>s'. displayButton_body (initial_globals (\<lambda>k. 0) (\<lambda>k. if k < 3 then 1 else 0)) = Some (Inr s') \<and>
         mode s' = 1 \<and> gpio27_pos s' = 4) \<and>
   (\<exists>s'. displayButton_passes 5 (initial_globals (\<lambda>k. 0) (\<lambda>k. if k < 3 then 1 else 0)) =
           Some (Inr s') \<and> mode s' = 1)"
proof -
  let ?g = "initial_globals (\<lambda>k. 0) (\<lambda>k. if k < 3 then 1 else 0)"
  have h1: "\<not> stopButton ?g" and h2: "(0::nat) < 3"
    and h3: "\<forall>k<3. gpio27 ?g (gpio27_pos ?g + k) = 1"
    and h4: "\<forall>k\<ge>3. gpio27 ?g (gpio27_pos ?g + k) \<noteq> 1"
    by (simp_all add: initial_globals_def)
  show ?thesis
    using held_press_advances_once [OF h1 h2 h3 h4, of 4]
    by (simp add: switchMode_def initial_globals_def eval_nat_numeral)
qed

end
